theory Spec2Isabelle
  imports Complex_Main "HOL-Library.Word"
begin

section \<open>Python values used by the F5 device driver\<close>

text \<open>
  The driver (\<^verbatim>\<open>pyntc/devices/f5_device.py\<close>) is Python. Exceptions are values of
  \<open>exn\<close>; a function that may raise returns \<open>exn + 'a\<close> with \<open>Inl\<close> the exception.
  \<open>ValueError\<close>, \<open>RuntimeError\<close> and \<open>NotImplementedError\<close> carry the message the source
  gives them; \<open>TypeError\<close> and \<open>IndexError\<close> are raised by the interpreter itself
  (Python 3: ordering an \<open>int\<close> against a \<open>str\<close>; indexing an empty list);
  \<open>OSError\<close> is what \<^verbatim>\<open>os.path.getsize\<close> raises on a missing file and \<open>ApiError\<close>
  stands for whatever the device SDK raises.
\<close>

datatype exn =
    ValueError string
  | RuntimeError string
  | NotImplementedError string
  | TypeError
  | IndexError
  | OSError
  | ApiError string

text \<open>
  Strings are lists of characters with code points below 256. \<open>isspace\<close> is the
  class of \<^verbatim>\<open>str.isspace\<close>, \<^verbatim>\<open>str.split()\<close> and the pattern \<^verbatim>\<open>\s\<close> on those code
  points: tab, line feed, vertical tab, form feed, carriage return, the four
  separators 0x1C..0x1F, space, 0x85 and 0xA0. \<open>isdigit\<close> is \<^verbatim>\<open>\d\<close>.
\<close>

definition isspace :: "char \<Rightarrow> bool" where
  "isspace c = (c \<in> set [CHR 0x09, CHR 0x0A, CHR 0x0B, CHR 0x0C, CHR 0x0D,
                           CHR 0x1C, CHR 0x1D, CHR 0x1E, CHR 0x1F, CHR 0x20,
                           CHR 0x85, CHR 0xA0])"

definition isdigit :: "char \<Rightarrow> bool" where
  "isdigit c = (c \<in> set ''0123456789'')"

text \<open>\<^verbatim>\<open>bool(x)\<close> of a string: only the empty string is false.\<close>

definition truthy :: "string option \<Rightarrow> bool" where
  "truthy x = (case x of None \<Rightarrow> False | Some s \<Rightarrow> s \<noteq> [])"

text \<open>\<^verbatim>\<open>"{}".format(x)\<close> for a value that is a string or \<^verbatim>\<open>None\<close>.\<close>

definition format_str :: "string option \<Rightarrow> string" where
  "format_str x = (case x of None \<Rightarrow> ''None'' | Some s \<Rightarrow> s)"

subsection \<open>The regular expressions of the driver\<close>

text \<open>
  \<^verbatim>\<open>re.match\<close> is a backtracking matcher anchored at the start of the subject. The
  pattern of the driver uses single-character classes only, with the greedy
  operators \<^verbatim>\<open>*\<close>, \<^verbatim>\<open>+\<close>, \<^verbatim>\<open>?\<close> and one capturing group. \<open>rmatch\<close> explores the
  alternatives in the order of the backtracking matcher (greedy: the longer
  repetition first) and returns the first success, as the pair of the remaining
  subject at the opening and at the closing of the group.
\<close>

datatype cls = AnyChar | Space | Digit | Lit char

fun cls_ok :: "cls \<Rightarrow> char \<Rightarrow> bool" where
  "cls_ok AnyChar c = (c \<noteq> CHR 0x0A)"
| "cls_ok Space c = isspace c"
| "cls_ok Digit c = isdigit c"
| "cls_ok (Lit d) c = (c = d)"

datatype node = One cls | Star cls | Plus cls | Opt cls | GroupOpen | GroupClose

fun rmatch :: "node list \<Rightarrow> string \<Rightarrow> (string option \<times> string option) option" where
  "rmatch [] s = Some (None, None)"
| "rmatch (One c # r) [] = None"
| "rmatch (One c # r) (x # xs) = (if cls_ok c x then rmatch r xs else None)"
| "rmatch (Star c # r) [] = rmatch r []"
| "rmatch (Star c # r) (x # xs) =
     (if cls_ok c x
      then (case rmatch (Star c # r) xs of Some m \<Rightarrow> Some m | None \<Rightarrow> rmatch r (x # xs))
      else rmatch r (x # xs))"
| "rmatch (Plus c # r) [] = None"
| "rmatch (Plus c # r) (x # xs) = (if cls_ok c x then rmatch (Star c # r) xs else None)"
| "rmatch (Opt c # r) [] = rmatch r []"
| "rmatch (Opt c # r) (x # xs) =
     (if cls_ok c x
      then (case rmatch r xs of Some m \<Rightarrow> Some m | None \<Rightarrow> rmatch r (x # xs))
      else rmatch r (x # xs))"
| "rmatch (GroupOpen # r) s = map_option (\<lambda>(b, e). (Some s, e)) (rmatch r s)"
| "rmatch (GroupClose # r) s = map_option (\<lambda>(b, e). (b, Some s)) (rmatch r s)"

text \<open>\<^verbatim>\<open>re.match(pattern, s)\<close> followed by \<^verbatim>\<open>match.group(1)\<close>; \<open>None\<close> when there is no match.\<close>

definition re_match_group1 :: "node list \<Rightarrow> string \<Rightarrow> string option" where
  "re_match_group1 pat s =
     (case rmatch pat s of
        Some (Some b, Some e) \<Rightarrow> Some (take (length b - length e) b)
      | _ \<Rightarrow> None)"

text \<open>The pattern \<^verbatim>\<open>'.*\s\/\s(\d+\.?\d+) GB free'\<close>.\<close>

definition free_space_regex :: "node list" where
  "free_space_regex =
     [Star AnyChar, One Space, One (Lit CHR ''/''), One Space,
      GroupOpen, Plus Digit, Opt (Lit CHR ''.''), Plus Digit, GroupClose]
     @ map (\<lambda>c. One (Lit c)) '' GB free''"

text \<open>
  \<^verbatim>\<open>float(text)\<close> on the text of the group, which is a run of digits or two runs
  around a point. The number is the exact value of the decimal numeral: the
  rounding to binary64 is not modelled. Python orders an \<open>int\<close> against a
  \<open>float\<close> by their exact values, which is the order of \<open>rat\<close>.
\<close>

definition decimal :: "string \<Rightarrow> nat" where
  "decimal s = foldl (\<lambda>n c. 10 * n + (of_char c - 48)) 0 s"

definition pyfloat :: "string \<Rightarrow> rat" where
  "pyfloat s =
     (case dropWhile (\<lambda>c. c \<noteq> CHR ''.'') s of
        [] \<Rightarrow> of_nat (decimal s)
      | _ # ds \<Rightarrow>
          of_nat (decimal (takeWhile (\<lambda>c. c \<noteq> CHR ''.'') s))
          + of_nat (decimal ds) / 10 ^ length ds)"

subsection \<open>Lines, tokens and paths\<close>

text \<open>
  \<^verbatim>\<open>str.splitlines()\<close>: a line ends at a line boundary (\<^verbatim>\<open>\n\<close>, \<^verbatim>\<open>\r\<close>, \<^verbatim>\<open>\r\n\<close>,
  \<^verbatim>\<open>\v\<close>, \<^verbatim>\<open>\f\<close>, 0x1C, 0x1D, 0x1E, 0x85); the boundaries are dropped and a final
  boundary opens no empty line. The first argument holds the current line, reversed.
\<close>

definition islinebreak :: "char \<Rightarrow> bool" where
  "islinebreak c = (c \<in> set [CHR 0x0A, CHR 0x0B, CHR 0x0C, CHR 0x0D,
                               CHR 0x1C, CHR 0x1D, CHR 0x1E, CHR 0x85])"

fun splitlines_from :: "string \<Rightarrow> string \<Rightarrow> string list" where
  "splitlines_from acc [] = (if acc = [] then [] else [rev acc])"
| "splitlines_from acc [c] =
     (if islinebreak c then [rev acc] else [rev (c # acc)])"
| "splitlines_from acc (c # d # cs) =
     (if c = CHR 0x0D \<and> d = CHR 0x0A then rev acc # splitlines_from [] cs
      else if islinebreak c then rev acc # splitlines_from [] (d # cs)
      else splitlines_from (c # acc) (d # cs))"

definition splitlines :: "string \<Rightarrow> string list" where
  "splitlines s = splitlines_from [] s"

text \<open>\<^verbatim>\<open>s.split()[0]\<close>: the first whitespace-delimited token; \<open>IndexError\<close> when there is none.\<close>

definition split_first :: "string \<Rightarrow> exn + string" where
  "split_first s =
     (case dropWhile isspace s of
        [] \<Rightarrow> Inl IndexError
      | t \<Rightarrow> Inr (takeWhile (\<lambda>c. \<not> isspace c) t))"

text \<open>\<^verbatim>\<open>os.path.basename\<close> and \<^verbatim>\<open>os.path.join\<close> (POSIX) with a first part that does not end in a slash.\<close>

definition basename :: "string \<Rightarrow> string" where
  "basename p = rev (takeWhile (\<lambda>c. c \<noteq> CHR ''/'') (rev p))"

definition path_join :: "string \<Rightarrow> string \<Rightarrow> string" where
  "path_join a b = (case b of CHR ''/'' # _ \<Rightarrow> b | _ \<Rightarrow> a @ ''/'' @ b)"

section \<open>The appliance, the local host and the session\<close>

text \<open>
  A volume and an image are the objects the SDK returns from the software
  inventory. The driver reads \<^verbatim>\<open>name\<close>, \<^verbatim>\<open>version\<close>, \<^verbatim>\<open>basebuild\<close> and \<^verbatim>\<open>status\<close> of
  a volume directly and guards \<^verbatim>\<open>active\<close> with \<^verbatim>\<open>hasattr\<close>, so only \<open>vol_active\<close>
  may be absent (\<open>None\<close>).
\<close>

record volume_obj =
  vol_name :: string
  vol_version :: string
  vol_basebuild :: string
  vol_status :: string
  vol_active :: "bool option"

record image_obj =
  img_fullPath :: string
  img_version :: string
  img_build :: string

text \<open>
  One snapshot of the appliance behind \<^verbatim>\<open>self.api_handler\<close>: what each SDK call
  of the driver answers. \<open>api_bash\<close> and \<open>api_unix_ls\<close> give the \<^verbatim>\<open>commandResult\<close> of
  \<^verbatim>\<open>tm.util.bash.exec_cmd\<close> and \<^verbatim>\<open>tm.util.unix_ls.exec_cmd\<close> for the given
  \<^verbatim>\<open>utilCmdArgs\<close>, \<open>None\<close> when the call yields nothing (a false value).
  \<open>api_connect\<close> is the exception of \<^verbatim>\<open>ManagementRoot(...)\<close>, if it raises, and
  \<open>api_volume_load\<close> the outcome of \<^verbatim>\<open>volumes.volume.load(name=...)\<close>.
\<close>

record device =
  api_bash :: "string \<Rightarrow> string option"
  api_unix_ls :: "string \<Rightarrow> string option"
  api_volume_exists :: "string option \<Rightarrow> bool"
  api_volume_load :: "string option \<Rightarrow> exn + volume_obj"
  api_connect :: "exn option"
  api_volumes :: "volume_obj list"
  api_images :: "image_obj list"

text \<open>The commands the driver sends with \<^verbatim>\<open>exec_cmd('install', ...)\<close> and \<^verbatim>\<open>exec_cmd('reboot', ...)\<close>.\<close>

datatype command =
    Install string "string option" "(string \<times> bool) list"
  | Reboot "string option"

type_synonym bytes = "8 word list"

text \<open>One POST of the upload: the URI, the three numbers of \<^verbatim>\<open>Content-Range\<close> and the body.\<close>

record request =
  req_uri :: string
  range_start :: int
  range_end :: int
  range_total :: int
  body :: bytes

text \<open>
  The state the driver acts on: the clock read by \<^verbatim>\<open>time.time()\<close> (in seconds),
  the number of \<^verbatim>\<open>time.sleep\<close> calls so far, the commands sent and the requests
  posted, in order. The appliance is a sequence of snapshots \<open>env\<close>: after \<open>k\<close>
  sleeps the driver talks to \<open>env k\<close>. Only sleeping takes time.
\<close>

record session =
  hostname :: string
  now :: int
  ticks :: nat
  sent :: "command list"
  posted :: "request list"

definition sleep :: "int \<Rightarrow> session \<Rightarrow> session" where
  "sleep d s = s\<lparr>now := now s + d, ticks := Suc (ticks s)\<rparr>"

text \<open>
  \<^verbatim>\<open>hashlib.md5\<close> is a library outside the repository: the hash object is a
  parameter, with its initial state, \<^verbatim>\<open>update\<close> and \<^verbatim>\<open>hexdigest\<close>.
\<close>

record 'h md5 =
  md5_new :: 'h
  md5_update :: "'h \<Rightarrow> bytes \<Rightarrow> 'h"
  md5_hexdigest :: "'h \<Rightarrow> string"

section \<open>The driver\<close>

subsection \<open>Free space\<close>

text \<open>
  \<^verbatim>\<open>_get_free_space\<close> returns \<^verbatim>\<open>None\<close> when the command yields nothing, the float
  of the group when the pattern matches, and otherwise the variable still holds
  the text of \<^verbatim>\<open>commandResult\<close>.
\<close>

datatype free_space = NoneVal | StrVal string | FloatVal rat

definition vgdisplay_args :: string where
  "vgdisplay_args = ''-c '' @ [CHR 0x22] @ ''vgdisplay -s --units G'' @ [CHR 0x22]"

definition get_free_space :: "device \<Rightarrow> free_space" where
  "get_free_space dev =
     (case api_bash dev vgdisplay_args of
        None \<Rightarrow> NoneVal
      | Some commandResult \<Rightarrow>
          (case re_match_group1 free_space_regex commandResult of
             None \<Rightarrow> StrVal commandResult
           | Some g \<Rightarrow> FloatVal (pyfloat g)))"

text \<open>
  \<^verbatim>\<open>_check_free_space\<close>. \<^verbatim>\<open>not free_space\<close> holds for \<^verbatim>\<open>None\<close>, the empty string
  and \<^verbatim>\<open>0.0\<close>. For a float the second \<^verbatim>\<open>elif\<close> is the negation of the first, so it
  is the last branch; for a non-empty string \<^verbatim>\<open>min_space < free_space\<close> orders an
  \<open>int\<close> against a \<open>str\<close>.
\<close>

definition check_free_space :: "device \<Rightarrow> int \<Rightarrow> exn + bool" where
  "check_free_space dev min_space =
     (case get_free_space dev of
        NoneVal \<Rightarrow> Inl (ValueError ''Could not get free space'')
      | StrVal t \<Rightarrow>
          if t = [] then Inl (ValueError ''Could not get free space'')
          else Inl TypeError
      | FloatVal f \<Rightarrow>
          if f = 0 then Inl (ValueError ''Could not get free space'')
          else if of_int min_space < f then Inr False
          else Inr True)"

subsection \<open>Checksums\<close>

definition md5sum_args :: "string \<Rightarrow> string" where
  "md5sum_args filepath = ''-c '' @ [CHR 0x22] @ ''md5sum '' @ filepath @ [CHR 0x22]"

definition file_copy_remote_md5 :: "device \<Rightarrow> string \<Rightarrow> exn + string option" where
  "file_copy_remote_md5 dev filepath =
     (case api_bash dev (md5sum_args filepath) of
        None \<Rightarrow> Inr None
      | Some commandResult \<Rightarrow>
          (case split_first commandResult of
             Inl e \<Rightarrow> Inl e
           | Inr t \<Rightarrow> Inr (Some t)))"

text \<open>The local file system maps the path of a regular file to its bytes.\<close>

definition file_copy_local_file_exists :: "(string \<Rightarrow> bytes option) \<Rightarrow> string \<Rightarrow> bool" where
  "file_copy_local_file_exists fs filepath = (fs filepath \<noteq> None)"

text \<open>
  The loop of \<^verbatim>\<open>_file_copy_local_md5\<close>: \<^verbatim>\<open>f.read(blocksize)\<close> returns the next
  bytes of the file from the position \<open>pos\<close>, at most \<open>blocksize\<close> of them, and the
  loop ends at the first empty read.
\<close>

function md5_loop :: "('h \<Rightarrow> bytes \<Rightarrow> 'h) \<Rightarrow> nat \<Rightarrow> bytes \<Rightarrow> nat \<Rightarrow> 'h \<Rightarrow> 'h" where
  "md5_loop upd blocksize data pos m =
     (if take blocksize (drop pos data) = [] then m
      else md5_loop upd blocksize data
             (pos + length (take blocksize (drop pos data)))
             (upd m (take blocksize (drop pos data))))"
  by pat_completeness auto
termination
  by (relation "measure (\<lambda>(upd, blocksize, data, pos, m). length data - pos)") auto

declare md5_loop.simps [simp del]

text \<open>
  \<^verbatim>\<open>_file_copy_local_md5\<close>: without the file the body of the \<^verbatim>\<open>if\<close> is skipped and
  the function returns \<^verbatim>\<open>None\<close>; \<^verbatim>\<open>open\<close> raises on a path that has no file. The
  default of \<open>blocksize\<close> is \<open>2 ^ 20\<close>.
\<close>

definition file_copy_local_md5 ::
  "'h md5 \<Rightarrow> (string \<Rightarrow> bytes option) \<Rightarrow> string \<Rightarrow> nat \<Rightarrow> exn + string option" where
  "file_copy_local_md5 H fs filepath blocksize =
     (if file_copy_local_file_exists fs filepath
      then (case fs filepath of
              None \<Rightarrow> Inl OSError
            | Some data \<Rightarrow>
                Inr (Some (md5_hexdigest H
                  (md5_loop (md5_update H) blocksize data 0 (md5_new H)))))
      else Inr None)"

definition check_md5sum :: "device \<Rightarrow> string \<Rightarrow> string option \<Rightarrow> exn + bool" where
  "check_md5sum dev filename checksum =
     (case file_copy_remote_md5 dev filename of
        Inl e \<Rightarrow> Inl e
      | Inr md5sum \<Rightarrow> if checksum = md5sum then Inr True else Inr False)"

subsection \<open>Inventory\<close>

text \<open>\<^verbatim>\<open>_image_exists\<close> returns \<^verbatim>\<open>None\<close>, \<^verbatim>\<open>True\<close> or \<^verbatim>\<open>False\<close>.\<close>

definition image_exists :: "device \<Rightarrow> string \<Rightarrow> bool option" where
  "image_exists dev image_name =
     (case api_unix_ls dev ''/shared/images'' of
        None \<Rightarrow> None
      | Some commandResult \<Rightarrow>
          if image_name \<in> set (splitlines commandResult) then Some True else Some False)"

definition volume_exists :: "device \<Rightarrow> string option \<Rightarrow> bool" where
  "volume_exists dev volume_name = api_volume_exists dev volume_name"

definition get_volumes :: "device \<Rightarrow> volume_obj list" where
  "get_volumes dev = api_volumes dev"

definition get_images :: "device \<Rightarrow> image_obj list" where
  "get_images dev = api_images dev"

fun active_volume_loop :: "volume_obj list \<Rightarrow> string option" where
  "active_volume_loop [] = None"
| "active_volume_loop (v # vs) =
     (if vol_active v = Some True then Some (vol_name v) else active_volume_loop vs)"

definition get_active_volume :: "device \<Rightarrow> string option" where
  "get_active_volume dev = active_volume_loop (get_volumes dev)"

subsection \<open>Installation\<close>

definition image_install :: "device \<Rightarrow> string \<Rightarrow> string option \<Rightarrow> session \<Rightarrow> session" where
  "image_install dev image_name volume s =
     (let create_volume = \<not> volume_exists dev volume;
          options = (if create_volume then [(''create-volume'', True)] else [])
      in s\<lparr>sent := sent s @ [Install image_name volume options]\<rparr>)"

text \<open>
  \<^verbatim>\<open>_image_installed\<close>. The first loop has no \<^verbatim>\<open>break\<close>: the variable \<^verbatim>\<open>image\<close> ends
  as the last image whose \<^verbatim>\<open>fullPath\<close> is the name. The second loop returns at the
  first volume that agrees in all four fields.
\<close>

fun image_loop :: "image_obj list \<Rightarrow> string \<Rightarrow> image_obj option \<Rightarrow> image_obj option" where
  "image_loop [] image_name img = img"
| "image_loop (i # is) image_name img =
     image_loop is image_name (if img_fullPath i = image_name then Some i else img)"

fun volume_loop :: "volume_obj list \<Rightarrow> string option \<Rightarrow> image_obj \<Rightarrow> bool" where
  "volume_loop [] volume img = False"
| "volume_loop (v # vs) volume img =
     (if Some (vol_name v) = volume \<and> vol_version v = img_version img
         \<and> vol_basebuild v = img_build img \<and> vol_status v = ''complete''
      then True
      else volume_loop vs volume img)"

definition image_installed :: "device \<Rightarrow> string \<Rightarrow> string option \<Rightarrow> bool" where
  "image_installed dev image_name volume =
     (case image_loop (get_images dev) image_name None of
        None \<Rightarrow> False
      | Some img \<Rightarrow> volume_loop (get_volumes dev) volume img)"

text \<open>
  The loop of \<^verbatim>\<open>_wait_for_image_installed\<close>: while the clock is before
  \<open>end_time\<close>, sleep 20 seconds, then look at the appliance.
\<close>

function wait_installed_loop ::
  "(nat \<Rightarrow> device) \<Rightarrow> string \<Rightarrow> string option \<Rightarrow> int \<Rightarrow> session \<Rightarrow> bool \<times> session" where
  "wait_installed_loop env image_name volume end_time s =
     (if now s < end_time
      then (if image_installed (env (ticks (sleep 20 s))) image_name volume
            then (True, sleep 20 s)
            else wait_installed_loop env image_name volume end_time (sleep 20 s))
      else (False, s))"
  by pat_completeness auto
termination
  by (relation "measure (\<lambda>(env, image_name, volume, end_time, s). nat (end_time - now s))")
     (auto simp: sleep_def)

declare wait_installed_loop.simps [simp del]

definition wait_for_image_installed ::
  "(nat \<Rightarrow> device) \<Rightarrow> string \<Rightarrow> string option \<Rightarrow> int \<Rightarrow> session \<Rightarrow> bool \<times> session" where
  "wait_for_image_installed env image_name volume timeout s =
     wait_installed_loop env image_name volume (now s + timeout) s"

definition image_match :: "device \<Rightarrow> string \<Rightarrow> string option \<Rightarrow> exn + bool" where
  "image_match dev image_name checksum =
     (if image_exists dev image_name = Some True
      then (case check_md5sum dev (path_join ''/shared/images'' image_name) checksum of
              Inl e \<Rightarrow> Inl e
            | Inr ok \<Rightarrow> if ok then Inr True else Inr False)
      else Inr False)"

subsection \<open>Reboot\<close>

definition reboot_to_volume :: "string option \<Rightarrow> session \<Rightarrow> session" where
  "reboot_to_volume volume_name s =
     (if truthy volume_name
      then s\<lparr>sent := sent s @ [Reboot volume_name]\<rparr>
      else s\<lparr>sent := sent s @ [Reboot None]\<rparr>)"

text \<open>
  The body of the \<^verbatim>\<open>try\<close> in \<^verbatim>\<open>_wait_for_device_reboot\<close>: reconnect, load the
  volume, and tell whether it has \<^verbatim>\<open>active\<close> set to \<^verbatim>\<open>True\<close>.
\<close>

definition reconnect_and_load :: "device \<Rightarrow> string option \<Rightarrow> exn + bool" where
  "reconnect_and_load dev volume_name =
     (case api_connect dev of
        Some e \<Rightarrow> Inl e
      | None \<Rightarrow>
          (case api_volume_load dev volume_name of
             Inl e \<Rightarrow> Inl e
           | Inr v \<Rightarrow> Inr (vol_active v = Some True)))"

text \<open>
  The loop: while the clock is before \<open>end_time\<close>, sleep 5 seconds and run the
  body; \<^verbatim>\<open>except Exception: pass\<close> goes on with the loop, as a volume that is not
  active does.
\<close>

function wait_reboot_loop ::
  "(nat \<Rightarrow> device) \<Rightarrow> string option \<Rightarrow> int \<Rightarrow> session \<Rightarrow> bool \<times> session" where
  "wait_reboot_loop env volume_name end_time s =
     (if now s < end_time
      then (case reconnect_and_load (env (ticks (sleep 5 s))) volume_name of
              Inl e \<Rightarrow> wait_reboot_loop env volume_name end_time (sleep 5 s)
            | Inr active \<Rightarrow>
                if active then (True, sleep 5 s)
                else wait_reboot_loop env volume_name end_time (sleep 5 s))
      else (False, s))"
  by pat_completeness auto
termination
  by (relation "measure (\<lambda>(env, volume_name, end_time, s). nat (end_time - now s))")
     (auto simp: sleep_def)

declare wait_reboot_loop.simps [simp del]

definition wait_for_device_reboot ::
  "(nat \<Rightarrow> device) \<Rightarrow> string option \<Rightarrow> int \<Rightarrow> session \<Rightarrow> bool \<times> session" where
  "wait_for_device_reboot env volume_name timeout s =
     wait_reboot_loop env volume_name (now s + timeout) s"

subsection \<open>Upload\<close>

text \<open>
  The loop of \<^verbatim>\<open>_upload_image\<close>, as the list of the requests it posts in order.
  \<open>pos\<close> is the position of the file object: \<^verbatim>\<open>fileobj.read(chunk_size)\<close> returns
  the next bytes, at most \<open>chunk_size\<close>, and \<^verbatim>\<open>fileobj.tell()\<close> is the position
  after the read (\<open>end_pos\<close> is the variable \<^verbatim>\<open>end\<close>). \<open>file_size\<close> is the variable
  \<^verbatim>\<open>size\<close>, from \<^verbatim>\<open>os.path.getsize\<close>.
\<close>

function upload_loop ::
  "string \<Rightarrow> nat \<Rightarrow> nat \<Rightarrow> bytes \<Rightarrow> nat \<Rightarrow> nat \<Rightarrow> request list" where
  "upload_loop uri chunk_size file_size data pos start =
     (let payload = take chunk_size (drop pos data) in
      if payload = [] then []
      else
        (let end_pos = pos + length payload;
             end_pos = (if end_pos < chunk_size then file_size else end_pos)
         in \<lparr>req_uri = uri, range_start = int start, range_end = int end_pos - 1,
             range_total = int file_size, body = payload\<rparr>
            # upload_loop uri chunk_size file_size data (pos + length payload)
                (start + length payload)))"
  by pat_completeness auto
termination
  by (relation "measure (\<lambda>(uri, chunk_size, file_size, data, pos, start). length data - pos)")
     auto

declare upload_loop.simps [simp del]

definition upload_uri :: "string \<Rightarrow> string \<Rightarrow> string" where
  "upload_uri host image_filename =
     ''https://'' @ host @ ''/mgmt/cm/autodeploy/software-image-uploads/'' @ image_filename"

definition upload_image ::
  "(string \<Rightarrow> bytes option) \<Rightarrow> string \<Rightarrow> session \<Rightarrow> (exn + unit) \<times> session" where
  "upload_image fs image_filepath s =
     (case fs image_filepath of
        None \<Rightarrow> (Inl OSError, s)
      | Some data \<Rightarrow>
          (Inr (),
           s\<lparr>posted := posted s @
                upload_loop (upload_uri (hostname s) (basename image_filepath))
                  (512 * 1024) (length data) data 0 0\<rparr>))"

subsection \<open>The public operations\<close>

definition file_copy_remote_exists ::
  "'h md5 \<Rightarrow> (string \<Rightarrow> bytes option) \<Rightarrow> device \<Rightarrow> string \<Rightarrow> string option \<Rightarrow> exn + bool" where
  "file_copy_remote_exists H fs dev src dest =
     (if truthy dest
      then Inl (NotImplementedError
                  ''Support only for images - destination is always /shared/images'')
      else
        (case file_copy_local_md5 H fs src (2 ^ 20) of
           Inl e \<Rightarrow> Inl e
         | Inr local_md5sum \<Rightarrow>
             (case image_match dev (basename src) local_md5sum of
                Inl e \<Rightarrow> Inl e
              | Inr m \<Rightarrow> if \<not> m then Inr False else Inr True)))"

definition reboot ::
  "(nat \<Rightarrow> device) \<Rightarrow> string option \<Rightarrow> session \<Rightarrow> (exn + unit) \<times> session" where
  "reboot env volume s =
     (let volume_name = (if get_active_volume (env (ticks s)) = volume then None else volume);
          s1 = reboot_to_volume volume_name s;
          (ok, s2) = wait_for_device_reboot env volume 600 s1
      in if \<not> ok
         then (Inl (RuntimeError (''Reboot to volume '' @ format_str volume @ '' failed'')), s2)
         else (Inr (), s2))"

definition set_boot_options ::
  "(nat \<Rightarrow> device) \<Rightarrow> string \<Rightarrow> string option \<Rightarrow> session \<Rightarrow> (exn + unit) \<times> session" where
  "set_boot_options env image_name volume s =
     (case check_free_space (env (ticks s)) 6 of
        Inl e \<Rightarrow> (Inl e, s)
      | Inr free_space \<Rightarrow>
          if \<not> free_space
          then (Inl (RuntimeError ''Not enough free space to install OS''), s)
          else
            (let s1 = image_install (env (ticks s)) image_name volume s;
                 (ok, s2) = wait_for_image_installed env image_name volume 900 s1
             in if \<not> ok
                then (Inl (RuntimeError (''Installation of '' @ format_str volume @ '' failed'')), s2)
                else (Inr (), s2)))"

section \<open>Example appliances\<close>

text \<open>
  Concrete appliances and sessions on which the theorems below are evaluated.
  \<open>vg_report free\<close> is the line of \<^verbatim>\<open>vgdisplay -s --units G\<close> quoted in the docstring
  of \<^verbatim>\<open>_get_free_space\<close>, with the given text for the free space.
\<close>

definition blank_device :: device where
  "blank_device =
     \<lparr>api_bash = (\<lambda>args. None), api_unix_ls = (\<lambda>args. None),
      api_volume_exists = (\<lambda>name. False),
      api_volume_load = (\<lambda>name. Inl (ApiError ''unreachable'')),
      api_connect = Some (ApiError ''unreachable''),
      api_volumes = [], api_images = []\<rparr>"

definition vg_report :: "string \<Rightarrow> string" where
  "vg_report free =
     [CHR 0x22] @ ''vg-db-sda'' @ [CHR 0x22]
     @ '' 30.98 GB  [23.89 GB  used / '' @ free @ '' GB free]''"

definition device_reporting :: "string \<Rightarrow> device" where
  "device_reporting report =
     blank_device\<lparr>api_bash := (\<lambda>args. if args = vgdisplay_args then Some report else None)\<rparr>"

definition session0 :: session where
  "session0 = \<lparr>hostname = ''bigip1'', now = 0, ticks = 0, sent = [], posted = []\<rparr>"

definition example_image :: image_obj where
  "example_image =
     \<lparr>img_fullPath = ''BIGIP-11.6.0.0.0.401.iso'', img_version = ''11.6.0'',
      img_build = ''0.0.401''\<rparr>"

definition installing_device :: "nat \<Rightarrow> nat \<Rightarrow> device" where
  "installing_device N k =
     (device_reporting (vg_report ''5.00''))
       \<lparr>api_volume_exists := (\<lambda>name. name = Some ''HD1.1'' \<or> name = Some ''HD1.2''),
        api_volumes :=
          [\<lparr>vol_name = ''HD1.1'', vol_version = ''11.5.4'', vol_basebuild = ''0.0.256'',
            vol_status = ''complete'', vol_active = Some True\<rparr>,
           \<lparr>vol_name = ''HD1.2'', vol_version = ''11.6.0'', vol_basebuild = ''0.0.401'',
            vol_status = (if k < N then ''installing'' else ''complete''),
            vol_active = None\<rparr>],
        api_images := [example_image]\<rparr>"

definition rebooting_device :: "nat \<Rightarrow> nat \<Rightarrow> device" where
  "rebooting_device K k =
     (if k \<le> K then blank_device
      else blank_device
        \<lparr>api_volume_load := (\<lambda>name.
            if name = Some ''HD1.2''
            then Inr \<lparr>vol_name = ''HD1.2'', vol_version = ''11.6.0'',
                      vol_basebuild = ''0.0.401'', vol_status = ''complete'',
                      vol_active = Some True\<rparr>
            else Inl (ApiError ''not found'')),
         api_connect := None\<rparr>)"

text \<open>
  A toy hash object (the state doubles and adds the length of each block, the
  digest writes it out in unary), a local file system without files and one
  with a file of three bytes.
\<close>

definition toy_md5 :: "nat md5" where
  "toy_md5 = \<lparr>md5_new = 0, md5_update = (\<lambda>h b. 2 * h + length b),
               md5_hexdigest = (\<lambda>h. replicate h CHR ''f'')\<rparr>"

definition no_files :: "string \<Rightarrow> bytes option" where
  "no_files = (\<lambda>path. None)"

definition small_files :: "string \<Rightarrow> bytes option" where
  "small_files = (\<lambda>path. if path = ''/tmp/small.iso'' then Some [1, 2, 3] else None)"

text \<open>A local file of one chunk and one byte.\<close>

definition big_files :: "string \<Rightarrow> bytes option" where
  "big_files = (\<lambda>path. if path = ''/tmp/BIGIP-11.6.0.0.0.401.iso''
                        then Some (replicate 524289 7) else None)"

section \<open>Reading a file in blocks\<close>

text \<open>
  The blocks of a file as the specification describes them: consecutive blocks
  of \<open>n\<close> bytes, the last one shorter when the length is not a multiple of \<open>n\<close>.
\<close>

function blocks :: "nat \<Rightarrow> 'a list \<Rightarrow> 'a list list" where
  "blocks n xs = (if n = 0 \<or> xs = [] then [] else take n xs # blocks n (drop n xs))"
  by pat_completeness auto
termination
  by (relation "measure (\<lambda>(n, xs). length xs)") auto

declare blocks.simps [simp del]

section \<open>Free space: the check and the precondition of the installation\<close>

lemma get_free_space_docstring_example:
  "get_free_space (device_reporting (vg_report ''7.10'')) = FloatVal (71 / 10)"
  by code_simp

text \<open>
  C1 (fails on the code). The claim: \<^verbatim>\<open>set_boot_options\<close> goes on to the install
  command exactly when the free space is at least 6 GB. On an appliance that
  reports 7.10 GB free, \<^verbatim>\<open>_check_free_space(min_space=6)\<close> returns \<^verbatim>\<open>False\<close> and
  \<^verbatim>\<open>set_boot_options\<close> raises "Not enough free space to install OS" without
  sending any command, although 7.10 GB is more than the 6 GB it asks for.
\<close>

theorem set_boot_options_refuses_sufficient_space:
  "check_free_space (device_reporting (vg_report ''7.10'')) 6 = Inr False
   \<and> set_boot_options (\<lambda>k. device_reporting (vg_report ''7.10''))
        ''BIGIP-11.6.0.0.0.401.iso'' (Some ''HD1.2'') session0
      = (Inl (RuntimeError ''Not enough free space to install OS''), session0)"
  by code_simp

text \<open>
  With 5.00 GB free, less than the 6 GB asked for, the same call sends the
  install command.
\<close>

lemma set_boot_options_installs_on_insufficient_space:
  "sent (snd (set_boot_options (\<lambda>k. device_reporting (vg_report ''5.00''))
        ''BIGIP-11.6.0.0.0.401.iso'' (Some ''HD1.2'') session0))
   = [Install ''BIGIP-11.6.0.0.0.401.iso'' (Some ''HD1.2'') [(''create-volume'', True)]]"
  by code_simp

text \<open>
  C2 (amended). For every free space \<open>f\<close> that was parsed and is not zero and
  every minimum \<open>m\<close>, \<^verbatim>\<open>_check_free_space\<close> returns \<^verbatim>\<open>False\<close> when \<open>f > m\<close> and \<^verbatim>\<open>True\<close>
  when \<open>f \<le> m\<close>: at the boundary \<open>f = m\<close> it returns \<^verbatim>\<open>True\<close>, the value it gives
  for less space than the minimum.
\<close>

theorem check_free_space_threshold:
  assumes "get_free_space dev = FloatVal f" and "f \<noteq> 0"
  shows "check_free_space dev m = Inr (f \<le> of_int m)"
  using assms by (auto simp: check_free_space_def)

theorem check_free_space_threshold_witness:
  "get_free_space (device_reporting (vg_report ''7.10'')) = FloatVal (71 / 10)
   \<and> check_free_space (device_reporting (vg_report ''7.10'')) 6 = Inr False"
proof -
  have h: "get_free_space (device_reporting (vg_report ''7.10'')) = FloatVal (71 / 10)"
    by code_simp
  have nz: "(71 / 10 :: rat) \<noteq> 0" by simp
  from check_free_space_threshold [OF h nz, of 6] h show ?thesis
    by simp
qed

text \<open>
  The claim as written fails at the boundary: with 6.00 GB free and a minimum
  of 6 the check returns \<^verbatim>\<open>True\<close>, which the claim reads as insufficient.
\<close>

theorem check_free_space_boundary_counterexample:
  "get_free_space (device_reporting (vg_report ''6.00'')) = FloatVal 6
   \<and> check_free_space (device_reporting (vg_report ''6.00'')) 6 = Inr True"
  by code_simp

text \<open>
  C9 (fails on the code). The claim: a report that cannot be parsed raises the
  free-space-unavailable error, and only such a report does. A report that does
  not match the pattern leaves its own text in \<^verbatim>\<open>free_space\<close>; the text is not
  empty, so the \<^verbatim>\<open>ValueError\<close> is skipped and the comparison of the integer
  \<^verbatim>\<open>min_space\<close> with a string raises \<^verbatim>\<open>TypeError\<close>. A report of 0.00 GB free is
  parsed and raises the \<^verbatim>\<open>ValueError\<close>.
\<close>

theorem check_free_space_unparsable_report:
  "get_free_space (device_reporting ''vgdisplay: command not found'')
     = StrVal ''vgdisplay: command not found''
   \<and> check_free_space (device_reporting ''vgdisplay: command not found'') 6 = Inl TypeError
   \<and> get_free_space (device_reporting (vg_report ''0.00'')) = FloatVal 0
   \<and> check_free_space (device_reporting (vg_report ''0.00'')) 6
       = Inl (ValueError ''Could not get free space'')"
  by code_simp

section \<open>Waiting for the installation\<close>

lemma sleep_simps [simp]:
  "now (sleep d s) = now s + d" "ticks (sleep d s) = Suc (ticks s)"
  "sent (sleep d s) = sent s" "posted (sleep d s) = posted s"
  by (simp_all add: sleep_def)

text \<open>
  The wait succeeds exactly when some probe finds the image installed, and the
  \<open>j\<close>-th probe takes place exactly when \<open>20 * (j - 1)\<close> seconds are less than the
  time left: the deadline is tested before the sleep, not after it.
\<close>

lemma wait_installed_loop_fst:
  "fst (wait_installed_loop env img vol e s) =
     (\<exists>j. 0 < j \<and> 20 * (int j - 1) < e - now s \<and> image_installed (env (ticks s + j)) img vol)"
proof (induction env img vol e s rule: wait_installed_loop.induct)
  case (1 env img vol e s)
  show ?case
  proof (cases "now s < e")
    case False
    have "\<not> (\<exists>j. 0 < j \<and> 20 * (int j - 1) < e - now s \<and> image_installed (env (ticks s + j)) img vol)"
    proof
      assume "\<exists>j. 0 < j \<and> 20 * (int j - 1) < e - now s \<and> image_installed (env (ticks s + j)) img vol"
      then obtain j where "0 < j" "20 * (int j - 1) < e - now s" by blast
      with False show False by simp
    qed
    with False show ?thesis by (subst wait_installed_loop.simps) simp
  next
    case True
    show ?thesis
    proof (cases "image_installed (env (ticks (sleep 20 s))) img vol")
      case inst: True
      have "0 < (1::nat) \<and> 20 * (int 1 - 1) < e - now s \<and> image_installed (env (ticks s + 1)) img vol"
        using True inst by simp
      then have "\<exists>j. 0 < j \<and> 20 * (int j - 1) < e - now s \<and> image_installed (env (ticks s + j)) img vol"
        by blast
      with True inst show ?thesis by (subst wait_installed_loop.simps) simp
    next
      case ninst: False
      have ih: "fst (wait_installed_loop env img vol e (sleep 20 s)) =
          (\<exists>j. 0 < j \<and> 20 * (int j - 1) < e - now (sleep 20 s)
               \<and> image_installed (env (ticks (sleep 20 s) + j)) img vol)"
        using "1.IH" [OF True ninst] .
      have "(\<exists>j. 0 < j \<and> 20 * (int j - 1) < e - now (sleep 20 s)
               \<and> image_installed (env (ticks (sleep 20 s) + j)) img vol)
          = (\<exists>j. 0 < j \<and> 20 * (int j - 1) < e - now s \<and> image_installed (env (ticks s + j)) img vol)"
        (is "?L = ?R")
      proof
        assume ?L
        then obtain j where j: "0 < j" "20 * (int j - 1) < e - now (sleep 20 s)"
          "image_installed (env (ticks (sleep 20 s) + j)) img vol" by blast
        then have "0 < Suc j \<and> 20 * (int (Suc j) - 1) < e - now s
            \<and> image_installed (env (ticks s + Suc j)) img vol" by simp
        then show ?R by blast
      next
        assume ?R
        then obtain j where j: "0 < j" "20 * (int j - 1) < e - now s"
          "image_installed (env (ticks s + j)) img vol" by blast
        have "j \<noteq> 1" using j(3) ninst by auto
        with j(1) obtain k where k: "j = Suc k" "0 < k" by (cases j) auto
        with j have "0 < k \<and> 20 * (int k - 1) < e - now (sleep 20 s)
            \<and> image_installed (env (ticks (sleep 20 s) + k)) img vol" by simp
        then show ?L by blast
      qed
      with ih True ninst show ?thesis by (subst wait_installed_loop.simps) simp
    qed
  qed
qed

text \<open>
  When the wait succeeds it returns at the first probe that finds the image
  installed, after as many sleeps.
\<close>

lemma wait_installed_loop_success:
  "0 < N \<Longrightarrow>
   (\<forall>j. 0 < j \<and> j < N \<longrightarrow> \<not> image_installed (env (ticks s + j)) img vol) \<Longrightarrow>
   image_installed (env (ticks s + N)) img vol \<Longrightarrow>
   20 * (int N - 1) < e - now s \<Longrightarrow>
   wait_installed_loop env img vol e s = (True, s\<lparr>now := now s + 20 * int N, ticks := ticks s + N\<rparr>)"
proof (induction N arbitrary: s)
  case 0
  then show ?case by simp
next
  case (Suc n)
  show ?case
  proof (cases "n = 0")
    case True
    with Suc.prems have "now s < e" "image_installed (env (ticks (sleep 20 s))) img vol"
      by simp_all
    then show ?thesis using True
      by (subst wait_installed_loop.simps) (simp add: sleep_def)
  next
    case False
    then have n: "0 < n" by simp
    from Suc.prems n have lt: "now s < e" by simp
    from n have "0 < (1::nat) \<and> 1 < Suc n" by simp
    with Suc.prems(2) have "\<not> image_installed (env (ticks s + 1)) img vol" by blast
    then have ninst: "\<not> image_installed (env (ticks (sleep 20 s))) img vol" by simp
    have a: "\<forall>j. 0 < j \<and> j < n \<longrightarrow> \<not> image_installed (env (ticks (sleep 20 s) + j)) img vol"
    proof (intro allI impI)
      fix j assume "0 < j \<and> j < n"
      then have "0 < Suc j \<and> Suc j < Suc n" by simp
      with Suc.prems(2) have "\<not> image_installed (env (ticks s + Suc j)) img vol" by blast
      then show "\<not> image_installed (env (ticks (sleep 20 s) + j)) img vol" by simp
    qed
    have b: "image_installed (env (ticks (sleep 20 s) + n)) img vol"
      using Suc.prems(3) by simp
    have c: "20 * (int n - 1) < e - now (sleep 20 s)"
      using Suc.prems(4) by simp
    have "wait_installed_loop env img vol e (sleep 20 s)
        = (True, (sleep 20 s)\<lparr>now := now (sleep 20 s) + 20 * int n,
                              ticks := ticks (sleep 20 s) + n\<rparr>)"
      by (rule Suc.IH [OF n a b c])
    with lt ninst show ?thesis
      by (subst wait_installed_loop.simps) (simp add: sleep_def)
  qed
qed

lemma image_install_clock [simp]:
  "now (image_install dev img vol s) = now s" "ticks (image_install dev img vol s) = ticks s"
  by (simp_all add: image_install_def Let_def)

text \<open>
  C3 (amended). When the installation is observed complete on the \<open>N\<close>-th probe
  and on no earlier one, the wait with its 20-second interval returns success
  if and only if \<open>(N - 1) * 20\<close> seconds are less than the timeout, and then it
  returns at that probe, the first true observation; otherwise it returns
  \<^verbatim>\<open>False\<close> and \<^verbatim>\<open>set_boot_options\<close> (timeout 900) raises "Installation of ... failed".
\<close>

theorem install_wait_first_observation:
  assumes "0 < N"
    and "\<forall>j. 0 < j \<and> j < N \<longrightarrow> \<not> image_installed (env (ticks s + j)) img vol"
    and "image_installed (env (ticks s + N)) img vol"
  shows "fst (wait_for_image_installed env img vol timeout s) = (20 * (int N - 1) < timeout)
    \<and> (20 * (int N - 1) < timeout \<longrightarrow>
         ticks (snd (wait_for_image_installed env img vol timeout s)) = ticks s + N)
    \<and> (check_free_space (env (ticks s)) 6 = Inr True \<longrightarrow>
         fst (set_boot_options env img vol s) =
           (if 20 * (int N - 1) < 900 then Inr ()
            else Inl (RuntimeError (''Installation of '' @ format_str vol @ '' failed''))))"
proof -
  have iff: "(\<exists>j. 0 < j \<and> 20 * (int j - 1) < t \<and> image_installed (env (ticks s + j)) img vol)
      = (20 * (int N - 1) < t)" for t :: int
  proof
    assume "\<exists>j. 0 < j \<and> 20 * (int j - 1) < t \<and> image_installed (env (ticks s + j)) img vol"
    then obtain j where j: "0 < j" "20 * (int j - 1) < t"
      "image_installed (env (ticks s + j)) img vol" by blast
    with assms(2) have "N \<le> j" by (meson not_le_imp_less)
    with j(2) show "20 * (int N - 1) < t" by simp
  next
    assume "20 * (int N - 1) < t"
    with assms(1,3) show "\<exists>j. 0 < j \<and> 20 * (int j - 1) < t \<and> image_installed (env (ticks s + j)) img vol"
      by blast
  qed
  have fst_eq: "fst (wait_for_image_installed env img vol t s') = (20 * (int N - 1) < t)"
    if "ticks s' = ticks s" for t s'
    using iff [of t] that by (simp add: wait_for_image_installed_def wait_installed_loop_fst)
  have one: "fst (wait_for_image_installed env img vol timeout s) = (20 * (int N - 1) < timeout)"
    by (rule fst_eq) simp
  have two: "ticks (snd (wait_for_image_installed env img vol timeout s)) = ticks s + N"
    if "20 * (int N - 1) < timeout"
    using wait_installed_loop_success [OF assms(1) assms(2) assms(3), of "now s + timeout"] that
    by (simp add: wait_for_image_installed_def)
  have three: "fst (set_boot_options env img vol s) =
           (if 20 * (int N - 1) < 900 then Inr ()
            else Inl (RuntimeError (''Installation of '' @ format_str vol @ '' failed'')))"
    if "check_free_space (env (ticks s)) 6 = Inr True"
    using that fst_eq [of "image_install (env (ticks s)) img vol s" 900]
    by (simp add: set_boot_options_def Let_def split_beta)
  from one two three show ?thesis by blast
qed

lemma get_free_space_five:
  "(case re_match_group1 free_space_regex (vg_report ''5.00'') of
      None \<Rightarrow> StrVal (vg_report ''5.00'')
    | Some g \<Rightarrow> FloatVal (pyfloat g)) = FloatVal 5"
  by code_simp

lemma installing_device_installed:
  "image_installed (installing_device N k) ''BIGIP-11.6.0.0.0.401.iso'' (Some ''HD1.2'') = (\<not> k < N)"
  by (simp add: installing_device_def image_installed_def get_images_def get_volumes_def
      example_image_def)

text \<open>
  An appliance that completes the installation at the 45th probe: the wait
  succeeds there and \<^verbatim>\<open>set_boot_options\<close> returns. One that completes it at the
  46th: the wait gives up after 45 probes and \<^verbatim>\<open>set_boot_options\<close> raises.
\<close>

theorem install_wait_first_observation_witness:
  "fst (wait_for_image_installed (installing_device 45) ''BIGIP-11.6.0.0.0.401.iso''
         (Some ''HD1.2'') 900 session0)
   \<and> ticks (snd (wait_for_image_installed (installing_device 45) ''BIGIP-11.6.0.0.0.401.iso''
         (Some ''HD1.2'') 900 session0)) = 45
   \<and> fst (set_boot_options (installing_device 45) ''BIGIP-11.6.0.0.0.401.iso''
         (Some ''HD1.2'') session0) = Inr ()
   \<and> \<not> fst (wait_for_image_installed (installing_device 46) ''BIGIP-11.6.0.0.0.401.iso''
         (Some ''HD1.2'') 900 session0)
   \<and> fst (set_boot_options (installing_device 46) ''BIGIP-11.6.0.0.0.401.iso''
         (Some ''HD1.2'') session0) = Inl (RuntimeError ''Installation of HD1.2 failed'')"
proof -
  have a: "(0::nat) < 45" and a': "(0::nat) < 46" by simp_all
  have b: "\<forall>j. 0 < j \<and> j < N \<longrightarrow>
     \<not> image_installed (installing_device N (ticks session0 + j))
         ''BIGIP-11.6.0.0.0.401.iso'' (Some ''HD1.2'')" for N
    by (simp add: installing_device_installed session0_def)
  have c: "image_installed (installing_device N (ticks session0 + N))
         ''BIGIP-11.6.0.0.0.401.iso'' (Some ''HD1.2'')" for N
    by (simp add: installing_device_installed session0_def)
  have d: "check_free_space (installing_device N (ticks session0)) 6 = Inr True" for N
    by (simp add: check_free_space_def get_free_space_def installing_device_def
        device_reporting_def get_free_space_five)
  from install_wait_first_observation [OF a b c, of 900] d [of 45]
  have one: "fst (wait_for_image_installed (installing_device 45) ''BIGIP-11.6.0.0.0.401.iso''
         (Some ''HD1.2'') 900 session0)
   \<and> ticks (snd (wait_for_image_installed (installing_device 45) ''BIGIP-11.6.0.0.0.401.iso''
         (Some ''HD1.2'') 900 session0)) = 45
   \<and> fst (set_boot_options (installing_device 45) ''BIGIP-11.6.0.0.0.401.iso''
         (Some ''HD1.2'') session0) = Inr ()"
    by (simp add: session0_def)
  from install_wait_first_observation [OF a' b c, of 900] d [of 46]
  have two: "\<not> fst (wait_for_image_installed (installing_device 46) ''BIGIP-11.6.0.0.0.401.iso''
         (Some ''HD1.2'') 900 session0)
   \<and> fst (set_boot_options (installing_device 46) ''BIGIP-11.6.0.0.0.401.iso''
         (Some ''HD1.2'') session0) = Inl (RuntimeError ''Installation of HD1.2 failed'')"
    by (simp add: session0_def format_str_def)
  from one two show ?thesis by simp
qed

text \<open>
  The claim as written fails at \<open>N = 45\<close> with the timeout of 900 seconds: \<open>45 * 20\<close>
  is not less than 900, yet the 45th probe takes place (the clock shows 880
  before the sleep) and the wait returns success.
\<close>

theorem install_wait_counterexample:
  "\<not> image_installed (installing_device 45 44) ''BIGIP-11.6.0.0.0.401.iso'' (Some ''HD1.2'')
   \<and> image_installed (installing_device 45 45) ''BIGIP-11.6.0.0.0.401.iso'' (Some ''HD1.2'')
   \<and> \<not> (45 * 20 < (900::int))
   \<and> fst (wait_for_image_installed (installing_device 45) ''BIGIP-11.6.0.0.0.401.iso''
         (Some ''HD1.2'') 900 session0)"
  by code_simp

section \<open>Reboot\<close>

text \<open>
  The reboot wait succeeds exactly when some probe reconnects, loads the volume
  and finds it active; the \<open>j\<close>-th probe takes place exactly when \<open>5 * (j - 1)\<close>
  seconds are less than the time left. A probe that raises counts like one that
  finds the volume inactive. The wait sends no command.
\<close>

lemma wait_reboot_loop_fst:
  "fst (wait_reboot_loop env vol e s) =
     (\<exists>j. 0 < j \<and> 5 * (int j - 1) < e - now s
          \<and> reconnect_and_load (env (ticks s + j)) vol = Inr True)"
proof (induction env vol e s rule: wait_reboot_loop.induct)
  case (1 env vol e s)
  let ?P = "\<lambda>s j. 0 < j \<and> 5 * (int j - 1) < e - now s
          \<and> reconnect_and_load (env (ticks s + j)) vol = Inr True"
  show ?case
  proof (cases "now s < e")
    case False
    have "\<not> (\<exists>j. ?P s j)"
    proof
      assume "\<exists>j. ?P s j"
      then obtain j where "0 < j" "5 * (int j - 1) < e - now s" by blast
      with False show False by simp
    qed
    with False show ?thesis by (subst wait_reboot_loop.simps) simp
  next
    case True
    show ?thesis
    proof (cases "reconnect_and_load (env (ticks (sleep 5 s))) vol = Inr True")
      case act: True
      have "?P s 1" using True act by simp
      then have "\<exists>j. ?P s j" by blast
      with True act show ?thesis by (subst wait_reboot_loop.simps) simp
    next
      case nact: False
      have rec: "wait_reboot_loop env vol e s = wait_reboot_loop env vol e (sleep 5 s)"
        using True nact by (subst wait_reboot_loop.simps) (auto split: sum.splits)
      have ih: "fst (wait_reboot_loop env vol e (sleep 5 s)) = (\<exists>j. ?P (sleep 5 s) j)"
      proof (cases "reconnect_and_load (env (ticks (sleep 5 s))) vol")
        case (Inl x)
        from "1.IH"(1) [OF True Inl] show ?thesis .
      next
        case (Inr b)
        with nact have "\<not> b" by simp
        from "1.IH"(2) [OF True Inr this] show ?thesis .
      qed
      have "(\<exists>j. ?P (sleep 5 s) j) = (\<exists>j. ?P s j)" (is "?L = ?R")
      proof
        assume ?L
        then obtain j where "?P (sleep 5 s) j" by blast
        then have "?P s (Suc j)" by simp
        then show ?R by blast
      next
        assume ?R
        then obtain j where j: "?P s j" by blast
        have "j \<noteq> 1" using j nact by auto
        with j obtain k where k: "j = Suc k" "0 < k" by (cases j) auto
        with j have "?P (sleep 5 s) k" by simp
        then show ?L by blast
      qed
      with ih rec show ?thesis by simp
    qed
  qed
qed

lemma wait_reboot_loop_sent: "sent (snd (wait_reboot_loop env vol e s)) = sent s"
proof (induction env vol e s rule: wait_reboot_loop.induct)
  case (1 env vol e s)
  show ?case
  proof (cases "now s < e")
    case False
    then show ?thesis by (subst wait_reboot_loop.simps) simp
  next
    case True
    show ?thesis
    proof (cases "reconnect_and_load (env (ticks (sleep 5 s))) vol")
      case (Inl x)
      from "1.IH"(1) [OF True Inl] True Inl show ?thesis
        by (subst wait_reboot_loop.simps) simp
    next
      case (Inr b)
      show ?thesis
      proof (cases b)
        case True
        with \<open>now s < e\<close> Inr show ?thesis by (subst wait_reboot_loop.simps) simp
      next
        case False
        from "1.IH"(2) [OF \<open>now s < e\<close> Inr False] \<open>now s < e\<close> Inr False show ?thesis
          by (subst wait_reboot_loop.simps) simp
      qed
    qed
  qed
qed

lemma reboot_to_volume_simps [simp]:
  "now (reboot_to_volume v s) = now s" "ticks (reboot_to_volume v s) = ticks s"
  by (simp_all add: reboot_to_volume_def)

text \<open>
  C4. With the 5-second interval and the 600-second deadline there are 120
  probes, the \<open>j\<close>-th after \<open>j\<close> sleeps. \<^verbatim>\<open>reboot\<close> returns normally if and only if one
  of them reconnects, loads the target volume and finds it active; whatever the
  other probes raise is swallowed, and the only failure is the \<^verbatim>\<open>RuntimeError\<close>
  "Reboot to volume ... failed" raised when no probe up to the deadline found
  the volume active.
\<close>

theorem reboot_polling:
  "fst (reboot env volume s) =
     (if (\<exists>j. 0 < j \<and> j \<le> 120 \<and> reconnect_and_load (env (ticks s + j)) volume = Inr True)
      then Inr ()
      else Inl (RuntimeError (''Reboot to volume '' @ format_str volume @ '' failed'')))"
proof -
  have "(5 * (int j - 1) < 600) = (j \<le> 120)" for j :: nat by auto
  then have "fst (wait_for_device_reboot env volume 600 s') =
      (\<exists>j. 0 < j \<and> j \<le> 120 \<and> reconnect_and_load (env (ticks s + j)) volume = Inr True)"
    if "ticks s' = ticks s" for s'
    using that by (simp add: wait_for_device_reboot_def wait_reboot_loop_fst)
  then show ?thesis
    by (simp add: reboot_def Let_def split_beta)
qed

text \<open>
  An appliance that is unreachable for the first three probes and reports the
  volume active at the fourth.
\<close>

theorem reboot_polling_witness:
  "reconnect_and_load (rebooting_device 3 1) (Some ''HD1.2'') = Inl (ApiError ''unreachable'')
   \<and> reconnect_and_load (rebooting_device 3 4) (Some ''HD1.2'') = Inr True
   \<and> fst (reboot (rebooting_device 3) (Some ''HD1.2'') session0) = Inr ()"
proof -
  have a: "reconnect_and_load (rebooting_device 3 (ticks session0 + 4)) (Some ''HD1.2'') = Inr True"
    by (simp add: rebooting_device_def reconnect_and_load_def session0_def)
  then have "\<exists>j. 0 < j \<and> j \<le> 120
      \<and> reconnect_and_load (rebooting_device 3 (ticks session0 + j)) (Some ''HD1.2'') = Inr True"
    by (intro exI [of _ 4]) simp
  with reboot_polling [of "rebooting_device 3" "Some ''HD1.2''" session0]
  have "fst (reboot (rebooting_device 3) (Some ''HD1.2'') session0) = Inr ()" by simp
  moreover have "reconnect_and_load (rebooting_device 3 1) (Some ''HD1.2'') = Inl (ApiError ''unreachable'')"
    by (simp add: rebooting_device_def reconnect_and_load_def blank_device_def)
  moreover have "reconnect_and_load (rebooting_device 3 4) (Some ''HD1.2'') = Inr True"
    by (simp add: rebooting_device_def reconnect_and_load_def)
  ultimately show ?thesis by simp
qed

text \<open>
  C7. For every target volume (a non-empty name), \<^verbatim>\<open>reboot\<close> sends exactly one
  command: the plain reboot without a volume when the name of the active volume
  equals the target, and the reboot naming the target otherwise.
\<close>

theorem reboot_command_selection:
  assumes "volume \<noteq> []"
  shows "sent (snd (reboot env (Some volume) s)) =
           sent s @ [if get_active_volume (env (ticks s)) = Some volume
                     then Reboot None else Reboot (Some volume)]"
  using assms
  by (simp add: reboot_def Let_def split_beta wait_for_device_reboot_def
      wait_reboot_loop_sent reboot_to_volume_def truthy_def)

text \<open>
  On an appliance whose active volume is HD1.1: the target HD1.1 gives the plain
  reboot, the target HD1.2 the reboot to that volume.
\<close>

theorem reboot_command_selection_witness:
  "sent (snd (reboot (installing_device 0) (Some ''HD1.1'') session0)) = [Reboot None]
   \<and> sent (snd (reboot (installing_device 0) (Some ''HD1.2'') session0)) = [Reboot (Some ''HD1.2'')]"
proof -
  have a: "''HD1.1'' \<noteq> []" and b: "''HD1.2'' \<noteq> []" by simp_all
  have act: "get_active_volume (installing_device 0 (ticks session0)) = Some ''HD1.1''"
    by (simp add: get_active_volume_def get_volumes_def installing_device_def)
  from reboot_command_selection [OF a, of "installing_device 0" session0]
       reboot_command_selection [OF b, of "installing_device 0" session0] act
  show ?thesis by (simp add: session0_def)
qed

section \<open>Inventory\<close>

lemma image_loop_in_set:
  "image_loop imgs n acc = Some i \<Longrightarrow> acc = Some i \<or> (i \<in> set imgs \<and> img_fullPath i = n)"
  by (induction imgs arbitrary: acc) (auto split: if_splits)

lemma image_loop_absent:
  "\<forall>k \<in> set imgs. img_fullPath k \<noteq> n \<Longrightarrow> image_loop imgs n acc = acc"
  by (induction imgs arbitrary: acc) auto

lemma image_loop_distinct:
  "distinct (map img_fullPath imgs) \<Longrightarrow> i \<in> set imgs \<Longrightarrow> img_fullPath i = n \<Longrightarrow>
   image_loop imgs n acc = Some i"
proof (induction imgs arbitrary: acc)
  case Nil
  then show ?case by simp
next
  case (Cons j js)
  show ?case
  proof (cases "i = j")
    case True
    with Cons.prems have "img_fullPath j \<notin> img_fullPath ` set js" "n = img_fullPath j"
      by auto
    then have "\<forall>k \<in> set js. img_fullPath k \<noteq> n" by (metis imageI)
    then have "image_loop js n (Some j) = Some j" by (rule image_loop_absent)
    with True Cons.prems show ?thesis by simp
  next
    case False
    with Cons.prems have "i \<in> set js" "distinct (map img_fullPath js)" by auto
    from Cons.IH [OF this(2) this(1) Cons.prems(3)] show ?thesis by simp
  qed
qed

lemma volume_loop_iff:
  "volume_loop vols volume img =
     (\<exists>v \<in> set vols. Some (vol_name v) = volume \<and> vol_version v = img_version img
        \<and> vol_basebuild v = img_build img \<and> vol_status v = ''complete'')"
  by (induction vols) auto

text \<open>
  C6. On an image list in which the full path identifies the image (the data
  model's unique key), the installed-check returns true if and only if an image
  whose full path is the given name is in the list and some volume with the
  given name has the version of that image, its build as base build and the
  status "complete"; a mismatch in any one of the fields makes it false.
\<close>

theorem image_installed_iff:
  assumes "distinct (map img_fullPath (api_images dev))"
  shows "image_installed dev img (Some vol) =
     (\<exists>i \<in> set (api_images dev). img_fullPath i = img \<and>
        (\<exists>v \<in> set (api_volumes dev). vol_name v = vol \<and> vol_version v = img_version i
           \<and> vol_basebuild v = img_build i \<and> vol_status v = ''complete''))"
  (is "?L = ?R")
proof
  assume ?L
  then obtain i where i: "image_loop (api_images dev) img None = Some i"
    and v: "volume_loop (api_volumes dev) (Some vol) i"
    by (auto simp: image_installed_def get_images_def get_volumes_def split: option.splits)
  from image_loop_in_set [OF i] have "i \<in> set (api_images dev)" "img_fullPath i = img"
    by auto
  with v show ?R by (auto simp: volume_loop_iff)
next
  assume ?R
  then obtain i where i: "i \<in> set (api_images dev)" "img_fullPath i = img"
    and v: "volume_loop (api_volumes dev) (Some vol) i"
    by (auto simp: volume_loop_iff)
  from image_loop_distinct [OF assms i] have "image_loop (api_images dev) img None = Some i" .
  with v show ?L by (simp add: image_installed_def get_images_def get_volumes_def)
qed

text \<open>
  The image installed on HD1.2; not installed while HD1.2 has the status
  "installing"; not installed on HD1.1, whose version and base build differ.
\<close>

theorem image_installed_iff_witness:
  "image_installed (installing_device 0 0) ''BIGIP-11.6.0.0.0.401.iso'' (Some ''HD1.2'')
   \<and> \<not> image_installed (installing_device 1 0) ''BIGIP-11.6.0.0.0.401.iso'' (Some ''HD1.2'')
   \<and> \<not> image_installed (installing_device 0 0) ''BIGIP-11.6.0.0.0.401.iso'' (Some ''HD1.1'')"
proof -
  have d: "distinct (map img_fullPath (api_images (installing_device N 0)))" for N
    by (simp add: installing_device_def)
  from image_installed_iff [OF d [of 0], of "''BIGIP-11.6.0.0.0.401.iso''" "''HD1.2''"]
       image_installed_iff [OF d [of 1], of "''BIGIP-11.6.0.0.0.401.iso''" "''HD1.2''"]
       image_installed_iff [OF d [of 0], of "''BIGIP-11.6.0.0.0.401.iso''" "''HD1.1''"]
  show ?thesis
    by (simp add: installing_device_def example_image_def)
qed

text \<open>
  C10. \<^verbatim>\<open>_image_exists\<close> returns \<^verbatim>\<open>True\<close> or \<^verbatim>\<open>False\<close> (whether the name is a line of
  the listing) only when the listing command produced output. Without output it
  returns \<^verbatim>\<open>None\<close>; \<^verbatim>\<open>_image_match\<close> then returns \<^verbatim>\<open>False\<close> and so does
  \<^verbatim>\<open>file_copy_remote_exists\<close>, as for an absent image, without raising.
\<close>

theorem image_exists_empty_listing:
  "image_exists dev image_name =
     map_option (\<lambda>out. image_name \<in> set (splitlines out)) (api_unix_ls dev ''/shared/images'')
   \<and> (api_unix_ls dev ''/shared/images'' = None \<longrightarrow>
        image_exists dev image_name = None
        \<and> image_match dev image_name checksum = Inr False
        \<and> (\<not> truthy dest \<longrightarrow> file_copy_remote_exists H fs dev src dest = Inr False))"
  by (auto simp: image_exists_def image_match_def file_copy_remote_exists_def
      file_copy_local_md5_def file_copy_local_file_exists_def split: option.splits)

theorem image_exists_empty_listing_witness:
  "api_unix_ls blank_device ''/shared/images'' = None
   \<and> image_exists blank_device ''BIGIP-11.6.0.0.0.401.iso'' = None
   \<and> file_copy_remote_exists toy_md5 no_files blank_device ''/tmp/BIGIP-11.6.0.0.0.401.iso'' None
       = Inr False"
proof -
  have a: "api_unix_ls blank_device ''/shared/images'' = None"
    by (simp add: blank_device_def)
  have b: "\<not> truthy None" by (simp add: truthy_def)
  from image_exists_empty_listing [of blank_device "''BIGIP-11.6.0.0.0.401.iso''" None None
      toy_md5 no_files "''/tmp/BIGIP-11.6.0.0.0.401.iso''"] a b
  show ?thesis by simp
qed

section \<open>The local checksum\<close>

lemma md5_loop_blocks:
  "md5_loop upd bs data pos m = foldl upd m (blocks bs (drop pos data))"
proof (induction upd bs data pos m rule: md5_loop.induct)
  case (1 upd bs data pos m)
  show ?case
  proof (cases "take bs (drop pos data) = []")
    case True
    then have "bs = 0 \<or> drop pos data = []" by auto
    then have "blocks bs (drop pos data) = []" by (subst blocks.simps) simp
    with True show ?thesis by (subst md5_loop.simps) simp
  next
    case False
    then have nz: "bs \<noteq> 0" "drop pos data \<noteq> []" by auto
    have len: "length (take bs (drop pos data)) = min bs (length data - pos)" by simp
    have "drop (pos + length (take bs (drop pos data))) data = drop bs (drop pos data)"
    proof (cases "bs \<le> length data - pos")
      case True
      then show ?thesis by (simp add: add.commute min_def)
    next
      case False
      then show ?thesis by (simp add: min_def)
    qed
    with "1.IH" [OF False] have
      "md5_loop upd bs data (pos + length (take bs (drop pos data))) (upd m (take bs (drop pos data)))
       = foldl upd (upd m (take bs (drop pos data))) (blocks bs (drop bs (drop pos data)))"
      by simp
    moreover have "blocks bs (drop pos data)
        = take bs (drop pos data) # blocks bs (drop bs (drop pos data))"
      using nz by (subst blocks.simps) simp
    ultimately show ?thesis using False by (subst md5_loop.simps) simp
  qed
qed

text \<open>
  C8 (amended). For a path that names no existing local file the local checksum
  returns \<^verbatim>\<open>None\<close> and raises nothing; for an existing file it returns the digest
  of the hash object fed with the consecutive blocks of the file, 1 MiB each by
  default.
\<close>

theorem file_copy_local_md5_blocks:
  "(fs filepath = None \<longrightarrow> file_copy_local_md5 H fs filepath blocksize = Inr None)
   \<and> (\<forall>data. fs filepath = Some data \<longrightarrow>
        file_copy_local_md5 H fs filepath blocksize =
          Inr (Some (md5_hexdigest H (foldl (md5_update H) (md5_new H) (blocks blocksize data)))))"
  by (simp add: file_copy_local_md5_def file_copy_local_file_exists_def md5_loop_blocks)

theorem file_copy_local_md5_blocks_witness:
  "file_copy_local_md5 toy_md5 small_files ''/tmp/missing.iso'' (2 ^ 20) = Inr None
   \<and> file_copy_local_md5 toy_md5 small_files ''/tmp/small.iso'' (2 ^ 20) = Inr (Some ''fff'')
   \<and> file_copy_local_md5 toy_md5 small_files ''/tmp/small.iso'' 2 = Inr (Some ''fffff'')"
proof -
  have a: "small_files ''/tmp/missing.iso'' = None"
    and b: "small_files ''/tmp/small.iso'' = Some [1, 2, 3]"
    by (simp_all add: small_files_def)
  have c: "blocks (2 ^ 20) [1, 2, 3 :: 8 word] = [[1, 2, 3]]"
    by (subst blocks.simps, subst blocks.simps) simp
  have d: "blocks 2 [1, 2, 3 :: 8 word] = [[1, 2], [3]]"
    by (subst blocks.simps, subst blocks.simps, subst blocks.simps) simp
  have r3: "replicate 3 CHR ''f'' = ''fff''" by (simp add: numeral_3_eq_3)
  have r5: "replicate 5 CHR ''f'' = ''fffff''" by (simp add: eval_nat_numeral)
  from file_copy_local_md5_blocks [of small_files "''/tmp/missing.iso''" toy_md5 "2 ^ 20"] a
  have one: "file_copy_local_md5 toy_md5 small_files ''/tmp/missing.iso'' (2 ^ 20) = Inr None"
    by simp
  from file_copy_local_md5_blocks [of small_files "''/tmp/small.iso''" toy_md5 "2 ^ 20"] b
  have two: "file_copy_local_md5 toy_md5 small_files ''/tmp/small.iso'' (2 ^ 20) = Inr (Some ''fff'')"
    by (simp only: c) (simp add: toy_md5_def r3)
  from file_copy_local_md5_blocks [of small_files "''/tmp/small.iso''" toy_md5 2] b
  have three: "file_copy_local_md5 toy_md5 small_files ''/tmp/small.iso'' 2 = Inr (Some ''fffff'')"
    by (simp only: d) (simp add: toy_md5_def r5)
  from one two three show ?thesis by simp
qed

text \<open>
  The claim as written fails on a missing file: no file-not-found error, the
  result is \<^verbatim>\<open>None\<close>.
\<close>

theorem file_copy_local_md5_missing_counterexample:
  "file_copy_local_file_exists no_files ''/tmp/missing.iso'' = False
   \<and> file_copy_local_md5 toy_md5 no_files ''/tmp/missing.iso'' (2 ^ 20) = Inr None"
  by (simp add: file_copy_local_md5_def file_copy_local_file_exists_def no_files_def)

section \<open>The upload\<close>

text \<open>A file of five bytes sent in chunks of two.\<close>

lemma upload_loop_example:
  "map (\<lambda>r. (range_start r, range_end r, range_total r, body r))
       (upload_loop ''u'' 2 5 [1, 2, 3, 4, 5] 0 0)
   = [(0, 1, 5, [1, 2]), (2, 3, 5, [3, 4]), (4, 4, 5, [5])]"
  by code_simp

text \<open>
  One step of the loop, and what the list of requests is made of: the bodies
  are the bytes from the position on, there is one request per started chunk,
  every request but the last carries a full chunk, and the last range ends at
  the last byte of the file.
\<close>

lemma div_add_chunk: "0 < C \<Longrightarrow> (x + C) div C = Suc (x div C)" for x C :: nat
  by simp

lemma upload_loop_unfold:
  "upload_loop uri C sz data pos st =
     (if take C (drop pos data) = [] then []
      else \<lparr>req_uri = uri, range_start = int st,
             range_end = int (if pos + length (take C (drop pos data)) < C then sz
                              else pos + length (take C (drop pos data))) - 1,
             range_total = int sz, body = take C (drop pos data)\<rparr>
           # upload_loop uri C sz data (pos + length (take C (drop pos data)))
               (st + length (take C (drop pos data))))"
  by (subst upload_loop.simps) (simp only: Let_def)

lemma upload_loop_Nil:
  "(upload_loop uri C sz data pos st = []) = (C = 0 \<or> length data \<le> pos)"
  by (subst upload_loop_unfold) auto

lemma drop_after_payload:
  "drop (pos + length (take C (drop pos data))) data = drop C (drop pos data)"
proof (cases "C \<le> length data - pos")
  case True
  then show ?thesis by (simp add: add.commute min_def)
next
  case False
  then show ?thesis by (simp add: min_def)
qed

lemma upload_loop_concat:
  "0 < C \<Longrightarrow> concat (map body (upload_loop uri C sz data pos st)) = drop pos data"
proof (induction uri C sz data pos st rule: upload_loop.induct)
  case (1 uri C sz data pos st)
  show ?case
  proof (cases "take C (drop pos data) = []")
    case True
    with "1.prems" have "drop pos data = []" by auto
    with True show ?thesis by (subst upload_loop_unfold) simp
  next
    case False
    from "1.IH" [OF refl False refl refl "1.prems"]
    have "concat (map body (upload_loop uri C sz data (pos + length (take C (drop pos data)))
             (st + length (take C (drop pos data))))) = drop C (drop pos data)"
      by (simp only: drop_after_payload)
    with False show ?thesis
      by (subst upload_loop_unfold) (simp del: drop_drop)
  qed
qed

lemma upload_loop_length:
  "length (upload_loop uri C sz data pos st) = (length data - pos + C - 1) div C"
proof (induction uri C sz data pos st rule: upload_loop.induct)
  case (1 uri C sz data pos st)
  show ?case
  proof (cases "take C (drop pos data) = []")
    case True
    then have "C = 0 \<or> length data \<le> pos" by auto
    then have "(length data - pos + C - 1) div C = 0"
    proof
      assume "C = 0" then show ?thesis by simp
    next
      assume le: "length data \<le> pos"
      show ?thesis
      proof (cases "C = 0")
        case True then show ?thesis by simp
      next
        case False
        with le have "length data - pos + C - 1 < C" by simp
        then show ?thesis by (rule div_less)
      qed
    qed
    with True show ?thesis by (subst upload_loop_unfold) simp
  next
    case False
    then have C: "0 < C" and n: "pos < length data" by auto
    let ?p = "length (take C (drop pos data))"
    have ih: "length (upload_loop uri C sz data (pos + ?p) (st + ?p))
        = (length data - (pos + ?p) + C - 1) div C"
      by (rule "1.IH" [OF refl False refl refl])
    have "Suc ((length data - (pos + ?p) + C - 1) div C) = (length data - pos + C - 1) div C"
    proof (cases "length data - pos \<le> C")
      case True
      then have p: "?p = length data - pos" by simp
      have "C * 1 \<le> length data - pos + C - 1" "length data - pos + C - 1 < C * Suc 1"
        using True n C by simp_all
      then have "(length data - pos + C - 1) div C = 1"
        by (rule div_nat_eqI)
      moreover have "(length data - (pos + ?p) + C - 1) div C = 0"
        using p C by simp
      ultimately show ?thesis by simp
    next
      case False
      then have p: "?p = C" by simp
      have "length data - pos + C - 1 = (length data - (pos + C) + C - 1) + C"
        using False C by simp
      moreover have "((length data - (pos + C) + C - 1) + C) div C
          = Suc ((length data - (pos + C) + C - 1) div C)"
        using C by (rule div_add_chunk)
      ultimately have "(length data - pos + C - 1) div C
          = Suc ((length data - (pos + C) + C - 1) div C)"
        by simp
      then show ?thesis unfolding p by (rule sym)
    qed
    with ih False show ?thesis
      by (subst upload_loop_unfold) simp
  qed
qed

lemma upload_loop_bodies:
  "map (\<lambda>r. length (body r)) (butlast (upload_loop uri C sz data pos st))
     = replicate (length (upload_loop uri C sz data pos st) - 1) C"
proof (induction uri C sz data pos st rule: upload_loop.induct)
  case (1 uri C sz data pos st)
  show ?case
  proof (cases "take C (drop pos data) = []")
    case True
    then show ?thesis by (subst (1 2) upload_loop_unfold) simp
  next
    case False
    then have C: "0 < C" and n: "pos < length data" by auto
    let ?p = "length (take C (drop pos data))"
    let ?rest = "upload_loop uri C sz data (pos + ?p) (st + ?p)"
    have ih: "map (\<lambda>r. length (body r)) (butlast ?rest) = replicate (length ?rest - 1) C"
      by (rule "1.IH" [OF refl False refl refl])
    show ?thesis
    proof (cases "?rest = []")
      case True
      with False show ?thesis by (subst (1 2) upload_loop_unfold) simp
    next
      case rest: False
      then have "pos + ?p < length data" by (simp add: upload_loop_Nil)
      then have p: "?p = C" by (simp add: min_def split: if_splits)
      from rest have "replicate (length ?rest) C = C # replicate (length ?rest - 1) C"
        by (cases ?rest) simp_all
      with ih rest False p show ?thesis
        by (subst (1 2) upload_loop_unfold) (simp del: length_take)
    qed
  qed
qed

lemma upload_loop_last:
  "upload_loop uri C (length data) data pos st \<noteq> [] \<Longrightarrow>
   range_end (last (upload_loop uri C (length data) data pos st)) = int (length data) - 1"
proof (induction uri C "length data" data pos st rule: upload_loop.induct)
  case (1 uri C data pos st)
  from "1.prems" have ne: "take C (drop pos data) \<noteq> []"
    by (subst (asm) upload_loop_unfold) (simp split: if_splits)
  then have C: "0 < C" and n: "pos < length data" by auto
  let ?p = "length (take C (drop pos data))"
  let ?rest = "upload_loop uri C (length data) data (pos + ?p) (st + ?p)"
  show ?case
  proof (cases "?rest = []")
    case True
    then have "length data \<le> pos + ?p" using C by (simp add: upload_loop_Nil)
    moreover have "pos + ?p \<le> length data" using n by simp
    ultimately have "pos + ?p = length data" by simp
    with True ne show ?thesis
      by (subst upload_loop_unfold) (simp del: length_take)
  next
    case False
    from "1.hyps" [OF refl ne refl refl False]
    have "range_end (last ?rest) = int (length data) - 1" .
    with False ne show ?thesis
      by (subst upload_loop_unfold) (simp del: length_take)
  qed
qed

text \<open>
  C5. For a local file of \<open>S\<close> bytes the upload posts \<open>ceil(S / C)\<close> requests with
  \<open>C = 512 * 1024\<close>, in order and after the requests posted before; every
  request except the last carries exactly \<open>C\<close> bytes; the range of the last
  request ends at \<open>S - 1\<close>; and the bodies, concatenated in order, are the bytes
  of the file.
\<close>

theorem upload_image_chunks:
  assumes "fs image_filepath = Some data"
  shows "\<exists>rs. upload_image fs image_filepath s = (Inr (), s\<lparr>posted := posted s @ rs\<rparr>)
     \<and> length rs = (length data + (512 * 1024 - 1)) div (512 * 1024)
     \<and> map (\<lambda>r. length (body r)) (butlast rs) = replicate (length rs - 1) (512 * 1024)
     \<and> (data \<noteq> [] \<longrightarrow> range_end (last rs) = int (length data) - 1)
     \<and> concat (map body rs) = data"
proof -
  let ?rs = "upload_loop (upload_uri (hostname s) (basename image_filepath))
               (512 * 1024) (length data) data 0 0"
  have a: "upload_image fs image_filepath s = (Inr (), s\<lparr>posted := posted s @ ?rs\<rparr>)"
    using assms by (simp add: upload_image_def)
  have b: "length ?rs = (length data + (512 * 1024 - 1)) div (512 * 1024)"
    by (simp add: upload_loop_length)
  have c: "map (\<lambda>r. length (body r)) (butlast ?rs) = replicate (length ?rs - 1) (512 * 1024)"
    by (rule upload_loop_bodies)
  have d: "range_end (last ?rs) = int (length data) - 1" if "data \<noteq> []"
  proof -
    from that have "?rs \<noteq> []" by (simp add: upload_loop_Nil)
    then show ?thesis by (rule upload_loop_last)
  qed
  have e: "concat (map body ?rs) = data"
    using upload_loop_concat [of "512 * 1024" _ "length data" data 0 0] by simp
  from a b c d e show ?thesis by blast
qed

text \<open>A file of \<open>C + 1\<close> bytes is sent in two requests, the first with \<open>C\<close> bytes.\<close>

theorem upload_image_chunks_witness:
  "\<exists>rs. upload_image big_files ''/tmp/BIGIP-11.6.0.0.0.401.iso'' session0
          = (Inr (), session0\<lparr>posted := rs\<rparr>)
     \<and> length rs = 2
     \<and> map (\<lambda>r. length (body r)) (butlast rs) = [524288]
     \<and> range_end (last rs) = 524288
     \<and> concat (map body rs) = replicate 524289 7"
proof -
  have f: "big_files ''/tmp/BIGIP-11.6.0.0.0.401.iso'' = Some (replicate 524289 7)"
    by (simp add: big_files_def)
  have ne: "replicate 524289 (7 :: 8 word) \<noteq> []" by simp
  from upload_image_chunks [of big_files "''/tmp/BIGIP-11.6.0.0.0.401.iso''"
      "replicate 524289 7" session0, OF f] obtain rs where
    rs: "upload_image big_files ''/tmp/BIGIP-11.6.0.0.0.401.iso'' session0
          = (Inr (), session0\<lparr>posted := posted session0 @ rs\<rparr>)"
      "length rs = (length (replicate 524289 (7 :: 8 word)) + (512 * 1024 - 1)) div (512 * 1024)"
      "map (\<lambda>r. length (body r)) (butlast rs) = replicate (length rs - 1) (512 * 1024)"
      "replicate 524289 (7 :: 8 word) \<noteq> [] \<longrightarrow>
         range_end (last rs) = int (length (replicate 524289 (7 :: 8 word))) - 1"
      "concat (map body rs) = replicate 524289 7"
    by (elim exE conjE)
  from rs(2) have l: "length rs = 2" by simp
  from rs(3) l have b: "map (\<lambda>r. length (body r)) (butlast rs) = [524288]" by simp
  from rs(4) ne have e: "range_end (last rs) = 524288" by simp
  from rs(1) have u: "upload_image big_files ''/tmp/BIGIP-11.6.0.0.0.401.iso'' session0
          = (Inr (), session0\<lparr>posted := rs\<rparr>)"
    by (simp add: session0_def)
  from u l b e rs(5) show ?thesis by (intro exI [of _ rs] conjI)
qed

end
